theory Spec2Isabelle
  imports Main "HOL-Library.Word"
begin

section \<open>The node store of \<^verbatim>\<open>adt::binary_tree\<close> (binary_tree.hpp)\<close>

text \<open>
  Nodes live in memory obtained from the node allocator and point at each other, so the
  model keeps an explicit store: a partial map from addresses to nodes. An address that
  the map sends to \<open>None\<close> holds no live node. A pointer is an optional address,
  \<open>None\<close> being \<^verbatim>\<open>nullptr\<close>. \<^verbatim>\<open>size_type\<close> is \<^verbatim>\<open>std::size_t\<close>, taken as 64 bits wide:
  its arithmetic wraps around.
\<close>

type_synonym addr = nat
type_synonym ptr = "addr option"
type_synonym size_type = "64 word"

text \<open>\<^verbatim>\<open>struct _Node\<close>: the five fields, in the order of the source.\<close>

record 'a Node =
  "value" :: 'a
  parent :: ptr
  left :: ptr
  right :: ptr
  height :: size_type

type_synonym 'a heap = "addr \<rightharpoonup> 'a Node"

text \<open>
  The source signals one error, \<^verbatim>\<open>std::runtime_error\<close>, with its message. Reading or
  freeing through a pointer to no live node is undefined behaviour in the source; the
  model makes it a failure of its own, so that no theorem can rely on it.
\<close>

datatype failure = Runtime_error string | Undefined_behaviour

text \<open>
  The fields of \<^verbatim>\<open>class binary_tree\<close>. The template parameter \<^verbatim>\<open>Allocator\<close> and its
  rebinding \<^verbatim>\<open>_NodeAllocator\<close> are any two types: \<open>'al\<close> and \<open>'nal\<close>.
\<close>

record ('al, 'nal) binary_tree =
  root :: ptr
  allocator :: 'al
  node_allocator :: 'nal
  sz :: size_type

text \<open>
  \<^verbatim>\<open>binary_tree()\<close> and \<^verbatim>\<open>binary_tree(const allocator_type&)\<close>: the empty tree. \<open>al\<close> is
  the allocator given, or the default-constructed one; \<open>nal\<close> is the default-constructed
  node allocator.
\<close>

definition binary_tree_ctor :: "'al \<Rightarrow> 'nal \<Rightarrow> ('al, 'nal) binary_tree" where
  "binary_tree_ctor al nal = \<lparr>root = None, allocator = al, node_allocator = nal, sz = 0\<rparr>"

text \<open>
  \<^verbatim>\<open>std::allocator\<close>, the default of \<^verbatim>\<open>Allocator\<close>: stateless, and its \<^verbatim>\<open>operator==\<close>
  returns true for any two of them. The concrete trees below use it.
\<close>

datatype std_allocator = std_allocator

definition std_allocator_eq :: "std_allocator \<Rightarrow> std_allocator \<Rightarrow> bool" where
  "std_allocator_eq a b = True"

text \<open>\<^verbatim>\<open>_Node(value_type value)\<close>: an unlinked node of height 0.\<close>

definition Node_value_ctor :: "'a \<Rightarrow> 'a Node" where
  "Node_value_ctor v = \<lparr>value = v, parent = None, left = None, right = None, height = 0\<rparr>"

text \<open>
  \<^verbatim>\<open>_Node(value, parent, left, right, height)\<close>, the linking constructor, building the
  node at address \<open>this\<close>. The member initialisers store the five arguments; the body
  then recomputes the height from the children (lines 62 to 82) and links the node
  into its parent (lines 84 to 100). Every read goes through the store as it is at that
  moment.
\<close>

definition Node_children_height :: "'a heap \<Rightarrow> 'a Node \<Rightarrow> failure + size_type" where
  "Node_children_height h n =
     (case left n of
        Some l \<Rightarrow>
          (case h l of
             None \<Rightarrow> Inl Undefined_behaviour
           | Some ln \<Rightarrow>
               (case right n of
                  Some r \<Rightarrow>
                    (case h r of
                       None \<Rightarrow> Inl Undefined_behaviour
                     | Some rn \<Rightarrow> Inr (1 + max (height ln) (height rn)))
                | None \<Rightarrow> Inr (1 + height ln)))
      | None \<Rightarrow>
          (case right n of
             Some r \<Rightarrow>
               (case h r of
                  None \<Rightarrow> Inl Undefined_behaviour
                | Some rn \<Rightarrow> Inr (1 + height rn))
           | None \<Rightarrow> Inr 0))"

definition Node_link_parent :: "addr \<Rightarrow> 'a::linorder \<Rightarrow> ptr \<Rightarrow> 'a heap \<Rightarrow> failure + 'a heap" where
  "Node_link_parent this v par h =
     (case par of
        None \<Rightarrow> Inr h
      | Some p \<Rightarrow>
          (case h p of
             None \<Rightarrow> Inl Undefined_behaviour
           | Some pn \<Rightarrow>
               if v < value pn then Inr (h(p \<mapsto> pn\<lparr>left := Some this\<rparr>))
               else if v > value pn then Inr (h(p \<mapsto> pn\<lparr>right := Some this\<rparr>))
               else Inr h))"

definition Node_linking_ctor ::
  "addr \<Rightarrow> 'a::linorder \<Rightarrow> ptr \<Rightarrow> ptr \<Rightarrow> ptr \<Rightarrow> size_type \<Rightarrow> 'a heap \<Rightarrow> failure + 'a heap" where
  "Node_linking_ctor this v par l r ht h =
     (let n0 = \<lparr>value = v, parent = par, left = l, right = r, height = ht\<rparr>;
          h0 = h(this \<mapsto> n0)
      in case Node_children_height h0 n0 of
           Inl e \<Rightarrow> Inl e
         | Inr ht' \<Rightarrow> Node_link_parent this v par (h0(this \<mapsto> n0\<lparr>height := ht'\<rparr>)))"

text \<open>
  The three node primitives of the tree. They are member functions, so they take and
  return the tree object together with the store. \<open>new\<close> is the address that
  \<^verbatim>\<open>node_allocator_traits::allocate\<close> hands out: an allocator returns storage that is
  not in use, which is the hypothesis \<open>h new = None\<close> of the theorems below.
\<close>

definition construct_node ::
  "addr \<Rightarrow> 'a \<Rightarrow> ('al, 'nal) binary_tree \<times> 'a heap
     \<Rightarrow> failure + ptr \<times> ('al, 'nal) binary_tree \<times> 'a heap" where
  "construct_node new v s =
     (case s of (t, h) \<Rightarrow> Inr (Some new, t, h(new \<mapsto> Node_value_ctor v)))"

definition construct_node_linking ::
  "addr \<Rightarrow> 'a::linorder \<Rightarrow> ptr \<Rightarrow> ptr \<Rightarrow> ptr \<Rightarrow> size_type
     \<Rightarrow> ('al, 'nal) binary_tree \<times> 'a heap
     \<Rightarrow> failure + ptr \<times> ('al, 'nal) binary_tree \<times> 'a heap" where
  "construct_node_linking new v par l r ht s =
     (case s of (t, h) \<Rightarrow>
        (case Node_linking_ctor new v par l r ht h of
           Inl e \<Rightarrow> Inl e
         | Inr h' \<Rightarrow> Inr (Some new, t, h')))"

definition destroy_node ::
  "ptr \<Rightarrow> ('al, 'nal) binary_tree \<times> 'a heap
     \<Rightarrow> failure + ptr \<times> ('al, 'nal) binary_tree \<times> 'a heap" where
  "destroy_node node s =
     (case s of (t, h) \<Rightarrow>
        (case node of
           None \<Rightarrow> Inr (None, t, h)
         | Some a \<Rightarrow>
             (case h a of
                None \<Rightarrow> Inl Undefined_behaviour
              | Some n \<Rightarrow>
                  (case parent n of
                     None \<Rightarrow> Inr (None, t, h(a := None))
                   | Some p \<Rightarrow>
                       (case h p of
                          None \<Rightarrow> Inl Undefined_behaviour
                        | Some pn \<Rightarrow>
                            let h1 = (if left pn = Some a then h(p \<mapsto> pn\<lparr>left := None\<rparr>)
                                      else if right pn = Some a then h(p \<mapsto> pn\<lparr>right := None\<rparr>)
                                      else h)
                            in Inr (Some p, t, h1(a := None)))))))"

text \<open>\<^verbatim>\<open>size()\<close> and \<^verbatim>\<open>empty()\<close> read the counter \<open>sz\<close>.\<close>

definition binary_tree_size :: "('al, 'nal) binary_tree \<Rightarrow> size_type" where
  "binary_tree_size t = sz t"

definition binary_tree_empty :: "('al, 'nal) binary_tree \<Rightarrow> bool" where
  "binary_tree_empty t = (sz t = 0)"

text \<open>
  The nodes reachable from a pointer: the node it points at, when live, and every live
  node that a \<open>left\<close> or \<open>right\<close> pointer of a reachable node points at.
\<close>

inductive_set reachable :: "'a heap \<Rightarrow> ptr \<Rightarrow> addr set" for h :: "'a heap" and p :: ptr where
  start: "p = Some a \<Longrightarrow> h a = Some n \<Longrightarrow> a \<in> reachable h p"
| go_left: "b \<in> reachable h p \<Longrightarrow> h b = Some n \<Longrightarrow> left n = Some c \<Longrightarrow> h c = Some m
    \<Longrightarrow> c \<in> reachable h p"
| go_right: "b \<in> reachable h p \<Longrightarrow> h b = Some n \<Longrightarrow> right n = Some c \<Longrightarrow> h c = Some m
    \<Longrightarrow> c \<in> reachable h p"

text \<open>
  The defaulted \<^verbatim>\<open>operator==\<close> of \<^verbatim>\<open>_Node\<close> and of \<^verbatim>\<open>binary_tree\<close> compare member by
  member, in declaration order; a pointer member is compared as an address. The two
  allocator members are compared with the \<^verbatim>\<open>operator==\<close> of their own types, which
  the header does not fix: \<open>al_eq\<close> and \<open>nal_eq\<close>.
\<close>

definition Node_eq :: "'a Node \<Rightarrow> 'a Node \<Rightarrow> bool" where
  "Node_eq m n =
     (value m = value n \<and> parent m = parent n \<and> left m = left n \<and> right m = right n \<and>
      height m = height n)"

definition binary_tree_eq ::
  "('al \<Rightarrow> 'al \<Rightarrow> bool) \<Rightarrow> ('nal \<Rightarrow> 'nal \<Rightarrow> bool)
     \<Rightarrow> ('al, 'nal) binary_tree \<Rightarrow> ('al, 'nal) binary_tree \<Rightarrow> bool" where
  "binary_tree_eq al_eq nal_eq s t =
     (root s = root t \<and> al_eq (binary_tree.allocator s) (binary_tree.allocator t) \<and>
      nal_eq (node_allocator s) (node_allocator t) \<and> sz s = sz t)"

section \<open>Iterators and node handles\<close>

text \<open>
  \<^verbatim>\<open>const_iterator\<close> and \<^verbatim>\<open>iterator\<close> wrap one node pointer. The reverse iterators
  derive from them and inherit \<^verbatim>\<open>operator*\<close> and \<^verbatim>\<open>operator->\<close> unchanged.
\<close>

record const_iterator =
  node :: ptr

record iterator =
  node :: ptr

type_synonym const_reverse_iterator = const_iterator
type_synonym reverse_iterator = iterator

text \<open>
  \<^verbatim>\<open>operator*\<close> throws on the null position and otherwise reads the node's value.
  \<^verbatim>\<open>operator->\<close> throws likewise and otherwise returns the address of the value
  member, which is the address of the node; it reads nothing.
\<close>

definition const_iterator_deref :: "'a heap \<Rightarrow> const_iterator \<Rightarrow> failure + 'a" where
  "const_iterator_deref h it =
     (case const_iterator.node it of
        None \<Rightarrow> Inl (Runtime_error ''segmentation fault'')
      | Some a \<Rightarrow> (case h a of None \<Rightarrow> Inl Undefined_behaviour | Some n \<Rightarrow> Inr (value n)))"

definition const_iterator_arrow :: "const_iterator \<Rightarrow> failure + addr" where
  "const_iterator_arrow it =
     (case const_iterator.node it of
        None \<Rightarrow> Inl (Runtime_error ''segmentation fault'')
      | Some a \<Rightarrow> Inr a)"

definition iterator_deref :: "'a heap \<Rightarrow> iterator \<Rightarrow> failure + 'a" where
  "iterator_deref h it =
     (case iterator.node it of
        None \<Rightarrow> Inl (Runtime_error ''segmentation fault'')
      | Some a \<Rightarrow> (case h a of None \<Rightarrow> Inl Undefined_behaviour | Some n \<Rightarrow> Inr (value n)))"

definition iterator_arrow :: "iterator \<Rightarrow> failure + addr" where
  "iterator_arrow it =
     (case iterator.node it of
        None \<Rightarrow> Inl (Runtime_error ''segmentation fault'')
      | Some a \<Rightarrow> Inr a)"

text \<open>
  \<^verbatim>\<open>class node_type\<close>, the node handle: a node pointer and a node allocator, of type
  \<^verbatim>\<open>_NodeAllocator\<close>.
\<close>

record 'nal node_type =
  node :: ptr
  allocator :: 'nal

definition node_type_deref :: "'a heap \<Rightarrow> 'nal node_type \<Rightarrow> failure + 'a" where
  "node_type_deref h nt =
     (case node_type.node nt of
        None \<Rightarrow> Inl (Runtime_error ''segmentation fault'')
      | Some a \<Rightarrow> (case h a of None \<Rightarrow> Inl Undefined_behaviour | Some n \<Rightarrow> Inr (value n)))"

definition node_type_arrow :: "'nal node_type \<Rightarrow> failure + addr" where
  "node_type_arrow nt =
     (case node_type.node nt of
        None \<Rightarrow> Inl (Runtime_error ''segmentation fault'')
      | Some a \<Rightarrow> Inr a)"

definition node_type_value :: "'a heap \<Rightarrow> 'nal node_type \<Rightarrow> failure + 'a" where
  "node_type_value h nt =
     (case node_type.node nt of
        None \<Rightarrow> Inl (Runtime_error ''segmentation fault'')
      | Some a \<Rightarrow> (case h a of None \<Rightarrow> Inl Undefined_behaviour | Some n \<Rightarrow> Inr (value n)))"

definition node_type_empty :: "'nal node_type \<Rightarrow> bool" where
  "node_type_empty nt = (node_type.node nt = None)"

text \<open>
  \<^verbatim>\<open>node_type(node_type&& other)\<close>. The handle under construction is a new object; its
  allocator member is default-constructed before the body runs and its node pointer is
  set by the body. \<open>dflt\<close> is the default-constructed allocator, \<^verbatim>\<open>allocator_type()\<close>.
  The result is the new handle and the source as the constructor leaves it.
\<close>

definition node_type_move_ctor ::
  "'nal \<Rightarrow> 'nal node_type \<Rightarrow> 'nal node_type \<times> 'nal node_type" where
  "node_type_move_ctor dflt other =
     (if node_type.node other = None then (\<lparr>node = None, allocator = dflt\<rparr>, other)
      else
        let this1 = \<lparr>node = node_type.node other, allocator = dflt\<rparr>;
            other1 = other\<lparr>node_type.node := None\<rparr>;
            this2 = this1\<lparr>node_type.allocator := node_type.allocator other1\<rparr>;
            other2 = other1\<lparr>node_type.allocator := dflt\<rparr>
        in (this2, other2))"

text \<open>
  Assignment works on two existing handle objects that may be one and the same, so
  handles are kept in a store of their own, indexed by the object's location; \<open>this\<close>
  and \<open>other\<close> are locations. The statements of the source are applied one after the
  other. \<^verbatim>\<open>_destroy()\<close> frees the node the handle holds and nulls the pointer.
\<close>

type_synonym 'nal handles = "nat \<Rightarrow> 'nal node_type"

definition node_type_destroy ::
  "nat \<Rightarrow> 'nal handles \<times> 'a heap \<Rightarrow> failure + 'nal handles \<times> 'a heap" where
  "node_type_destroy this s =
     (case s of (hs, h) \<Rightarrow>
        (case node_type.node (hs this) of
           None \<Rightarrow> Inr (hs, h)
         | Some a \<Rightarrow>
             (case h a of
                None \<Rightarrow> Inl Undefined_behaviour
              | Some n \<Rightarrow> Inr (hs(this := (hs this)\<lparr>node_type.node := None\<rparr>), h(a := None)))))"

definition node_type_move_assign ::
  "'nal \<Rightarrow> nat \<Rightarrow> nat \<Rightarrow> 'nal handles \<times> 'a heap \<Rightarrow> failure + 'nal handles \<times> 'a heap" where
  "node_type_move_assign dflt this other s =
     (case node_type_destroy this s of
        Inl e \<Rightarrow> Inl e
      | Inr (hs, h) \<Rightarrow>
          let hs1 = hs(this := (hs this)\<lparr>node_type.node := node_type.node (hs other)\<rparr>);
              hs2 = hs1(other := (hs1 other)\<lparr>node_type.node := None\<rparr>);
              hs3 = hs2(this := (hs2 this)\<lparr>node_type.allocator := node_type.allocator (hs2 other)\<rparr>);
              hs4 = hs3(other := (hs3 other)\<lparr>node_type.allocator := dflt\<rparr>)
          in Inr (hs4, h))"

section \<open>In-order traversal\<close>

text \<open>
  The shape of a tree in the store: which node is the root, which nodes are below it
  on the left and on the right. \<open>inorder\<close> lists the nodes left subtree first, then the
  root, then the right subtree.
\<close>

datatype shape = Tip | Fork shape addr shape

fun inorder :: "shape \<Rightarrow> addr list" where
  "inorder Tip = []"
| "inorder (Fork l a r) = inorder l @ a # inorder r"

text \<open>
  \<open>rep h par t p\<close>: pointer \<open>p\<close> is the root of a tree of shape \<open>t\<close> in store \<open>h\<close>, every
  node of it live, with child pointers as \<open>t\<close> says and parent pointers pointing back,
  the root's parent pointer being \<open>par\<close>. A tree is well formed when moreover no node
  occurs in it twice: the invariant of the spec's data model, that a non-root node is
  exactly one child of its parent.
\<close>

fun rep :: "'a heap \<Rightarrow> ptr \<Rightarrow> shape \<Rightarrow> ptr \<Rightarrow> bool" where
  "rep h par Tip p = (p = None)"
| "rep h par (Fork l a r) p =
     (p = Some a \<and>
      (case h a of
         None \<Rightarrow> False
       | Some n \<Rightarrow> parent n = par \<and> rep h (Some a) l (left n) \<and> rep h (Some a) r (right n)))"

definition well_formed :: "'a heap \<Rightarrow> ptr \<Rightarrow> shape \<Rightarrow> bool" where
  "well_formed h p t = (rep h None t p \<and> distinct (inorder t))"

text \<open>
  The header declares \<^verbatim>\<open>operator++\<close> and \<^verbatim>\<open>operator--\<close> of the iterators and defines
  them nowhere, so the traversal follows section 4.2 of the spec. Its loops walk
  pointers and need not end on an arbitrary store: they are partial functions, \<open>None\<close>
  standing for a walk that gives no position (it never ends, or it reads an address
  that holds no node). A position that is returned is a pointer, null being the end
  sentinel.
\<close>

text \<open>
  Modelled from the spec: the body of \<^verbatim>\<open>operator++\<close> is missing; this is "descend to
  its leftmost descendant", started at the right child.
\<close>

partial_function (option) leftmost :: "'a heap \<Rightarrow> addr \<Rightarrow> addr option" where
  "leftmost h a =
     (case h a of
        None \<Rightarrow> None
      | Some n \<Rightarrow> (case left n of None \<Rightarrow> Some a | Some l \<Rightarrow> leftmost h l))"

text \<open>
  Modelled from the spec: the body of \<^verbatim>\<open>operator--\<close> is missing; this is the
  symmetric descent, to the "left subtree's rightmost descendant".
\<close>

partial_function (option) rightmost :: "'a heap \<Rightarrow> addr \<Rightarrow> addr option" where
  "rightmost h a =
     (case h a of
        None \<Rightarrow> None
      | Some n \<Rightarrow> (case right n of None \<Rightarrow> Some a | Some r \<Rightarrow> rightmost h r))"

text \<open>
  Modelled from the spec: the body of \<^verbatim>\<open>operator++\<close> is missing; this is "ascend via
  parent until arriving as a left child of some ancestor, returning that ancestor (or
  becoming the null position if no such ancestor exists)".
\<close>

partial_function (option) ascend_until_left_child :: "'a heap \<Rightarrow> addr \<Rightarrow> ptr option" where
  "ascend_until_left_child h a =
     (case h a of
        None \<Rightarrow> None
      | Some n \<Rightarrow>
          (case parent n of
             None \<Rightarrow> Some None
           | Some p \<Rightarrow>
               (case h p of
                  None \<Rightarrow> None
                | Some pn \<Rightarrow>
                    if left pn = Some a then Some (Some p) else ascend_until_left_child h p)))"

text \<open>
  Modelled from the spec: the body of \<^verbatim>\<open>operator--\<close> is missing; this is "ascend
  until arriving as a right child".
\<close>

partial_function (option) ascend_until_right_child :: "'a heap \<Rightarrow> addr \<Rightarrow> ptr option" where
  "ascend_until_right_child h a =
     (case h a of
        None \<Rightarrow> None
      | Some n \<Rightarrow>
          (case parent n of
             None \<Rightarrow> Some None
           | Some p \<Rightarrow>
               (case h p of
                  None \<Rightarrow> None
                | Some pn \<Rightarrow>
                    if right pn = Some a then Some (Some p) else ascend_until_right_child h p)))"

text \<open>
  Modelled from the spec: \<^verbatim>\<open>operator++\<close>, declared in the header and defined nowhere.
  "If a right child exists, descend to its leftmost descendant; else ascend via
  parent until arriving as a left child of some ancestor".
\<close>

definition successor :: "'a heap \<Rightarrow> addr \<Rightarrow> ptr option" where
  "successor h a =
     (case h a of
        None \<Rightarrow> None
      | Some n \<Rightarrow>
          (case right n of
             Some r \<Rightarrow> map_option Some (leftmost h r)
           | None \<Rightarrow> ascend_until_left_child h a))"

text \<open>
  Modelled from the spec: \<^verbatim>\<open>operator--\<close>, declared in the header and defined nowhere.
  "Symmetric, using left subtree's rightmost descendant, else ascend until arriving
  as a right child".
\<close>

definition predecessor :: "'a heap \<Rightarrow> addr \<Rightarrow> ptr option" where
  "predecessor h a =
     (case h a of
        None \<Rightarrow> None
      | Some n \<Rightarrow>
          (case left n of
             Some l \<Rightarrow> map_option Some (rightmost h l)
           | None \<Rightarrow> ascend_until_right_child h a))"

text \<open>
  The element that follows \<open>x\<close> in a list, as a pointer; \<open>d\<close> when \<open>x\<close> is the last
  element or does not occur.
\<close>

fun next_in :: "addr list \<Rightarrow> ptr \<Rightarrow> addr \<Rightarrow> ptr" where
  "next_in [] d x = d"
| "next_in (y # ys) d x =
     (if x = y then (case ys of [] \<Rightarrow> d | z # zs \<Rightarrow> Some z) else next_in ys d x)"

section \<open>Usable pointers and concrete stores\<close>

text \<open>A pointer is usable when it is null or points at a live node.\<close>

definition live_or_null :: "'a heap \<Rightarrow> ptr \<Rightarrow> bool" where
  "live_or_null h p = (case p of None \<Rightarrow> True | Some a \<Rightarrow> h a \<noteq> None)"

text \<open>Concrete stores and handles used to run the definitions.\<close>

definition leaf5 :: "int Node" where
  "leaf5 = \<lparr>value = 5, parent = None, left = None, right = None, height = 0\<rparr>"

definition one_node_tree :: "(std_allocator, std_allocator) binary_tree" where
  "one_node_tree =
     \<lparr>root = Some 0, allocator = std_allocator, node_allocator = std_allocator, sz = 1\<rparr>"

definition one_node_heap :: "int heap" where
  "one_node_heap = [0 \<mapsto> leaf5]"

definition two_node_heap :: "int heap" where
  "two_node_heap =
     [0 \<mapsto> leaf5\<lparr>left := Some 1\<rparr>, 1 \<mapsto> leaf5\<lparr>value := 3, parent := Some 0\<rparr>]"

definition twin_heap :: "int heap" where
  "twin_heap = [0 \<mapsto> leaf5, 1 \<mapsto> leaf5]"

definition no_handles :: "std_allocator handles" where
  "no_handles = (\<lambda>_. \<lparr>node = None, allocator = std_allocator\<rparr>)"

definition two_handles :: "std_allocator handles" where
  "two_handles = no_handles(1 := \<lparr>node = Some 0, allocator = std_allocator\<rparr>)"

definition shared_handles :: "std_allocator handles" where
  "shared_handles =
     no_handles(1 := \<lparr>node = Some 0, allocator = std_allocator\<rparr>,
                2 := \<lparr>node = Some 0, allocator = std_allocator\<rparr>)"

text \<open>
  The tree of the spec's scenario, values 5, 3, 8, 1, 4 inserted in this order at
  addresses 0 to 4, and two separate trees that hold the values 3 and 5 in different
  shapes.
\<close>

definition scenario_heap :: "int heap" where
  "scenario_heap =
     [0 \<mapsto> \<lparr>value = 5, parent = None, left = Some 1, right = Some 2, height = 0\<rparr>,
      1 \<mapsto> \<lparr>value = 3, parent = Some 0, left = Some 3, right = Some 4, height = 0\<rparr>,
      2 \<mapsto> \<lparr>value = 8, parent = Some 0, left = None, right = None, height = 0\<rparr>,
      3 \<mapsto> \<lparr>value = 1, parent = Some 1, left = None, right = None, height = 0\<rparr>,
      4 \<mapsto> \<lparr>value = 4, parent = Some 1, left = None, right = None, height = 0\<rparr>]"

definition scenario_shape :: shape where
  "scenario_shape = Fork (Fork (Fork Tip 3 Tip) 1 (Fork Tip 4 Tip)) 0 (Fork Tip 2 Tip)"

definition two_shapes_heap :: "int heap" where
  "two_shapes_heap =
     [0 \<mapsto> \<lparr>value = 5, parent = None, left = Some 1, right = None, height = 0\<rparr>,
      1 \<mapsto> \<lparr>value = 3, parent = Some 0, left = None, right = None, height = 0\<rparr>,
      2 \<mapsto> \<lparr>value = 3, parent = None, left = None, right = Some 3, height = 0\<rparr>,
      3 \<mapsto> \<lparr>value = 5, parent = Some 2, left = None, right = None, height = 0\<rparr>]"

section \<open>The linking constructor\<close>

lemma Node_children_height_fresh:
  assumes "h this = None" "left n = l" "right n = r" "live_or_null h l" "live_or_null h r"
  shows "Node_children_height (h(this \<mapsto> m)) n = Node_children_height h n"
  using assms
  by (auto simp: Node_children_height_def live_or_null_def split: option.splits)

lemma Node_children_height_total:
  assumes "live_or_null h (left n)" "live_or_null h (right n)"
  shows "\<exists>k. Node_children_height h n = Inr k"
  using assms
  by (auto simp: Node_children_height_def live_or_null_def split: option.splits)

text \<open>
  C1. A call of the linking constructor with a parent \<open>p\<close> that is a live node, for a
  node at a fresh address and with usable child pointers, returns, and in the store it
  leaves: when the new value is less than the parent's, the parent is what it was with
  \<open>left\<close> set to the new node; when it is greater, the parent is what it was with
  \<open>right\<close> set to the new node; when the two values are equal the parent is unchanged.
\<close>

theorem linking_ctor_links_into_parent:
  assumes "h this = None" and "h p = Some pn"
    and "live_or_null h l" and "live_or_null h r"
  shows "\<exists>h'. Node_linking_ctor this v (Some p) l r ht h = Inr h' \<and>
           (v < value pn \<longrightarrow> h' p = Some (pn\<lparr>left := Some this\<rparr>)) \<and>
           (v > value pn \<longrightarrow> h' p = Some (pn\<lparr>right := Some this\<rparr>)) \<and>
           (v = value pn \<longrightarrow> h' p = Some pn)"
proof -
  let ?n0 = "\<lparr>value = v, parent = Some p, left = l, right = r, height = ht\<rparr>"
  have ne: "p \<noteq> this" using assms by auto
  have "Node_children_height (h(this \<mapsto> ?n0)) ?n0 = Node_children_height h ?n0"
    using assms by (intro Node_children_height_fresh[where l = l and r = r]) simp_all
  moreover obtain k where "Node_children_height h ?n0 = Inr k"
    using Node_children_height_total[of h ?n0] assms by auto
  ultimately have "Node_children_height (h(this \<mapsto> ?n0)) ?n0 = Inr k" by simp
  then show ?thesis
    using assms(2) ne by (auto simp: Node_linking_ctor_def Node_link_parent_def)
qed

theorem linking_ctor_links_into_parent_witness:
  "\<exists>h'. Node_linking_ctor 1 (3::int) (Some 0) None None 7 one_node_heap = Inr h' \<and>
      h' 0 = Some (leaf5\<lparr>left := Some 1\<rparr>)"
  using linking_ctor_links_into_parent[of one_node_heap 1 0 leaf5 None None 3 7]
  by (simp add: one_node_heap_def leaf5_def live_or_null_def)

text \<open>
  C2. Whatever height argument \<open>ht\<close> is passed, the node the linking constructor
  builds (at a fresh address, with usable parent and child pointers) stores the height
  0 when both children are null, 1 plus the height of the sole child when exactly one
  child is given, and 1 plus the larger of the two children's heights when both are.
  The sums are those of \<^verbatim>\<open>size_type\<close>.
\<close>

theorem linking_ctor_height:
  assumes "h this = None" and "live_or_null h par"
    and "live_or_null h l" and "live_or_null h r"
  shows "\<exists>h' n. Node_linking_ctor this v par l r ht h = Inr h' \<and> h' this = Some n \<and>
           (l = None \<and> r = None \<longrightarrow> height n = 0) \<and>
           (\<forall>a ln. l = Some a \<and> r = None \<and> h a = Some ln \<longrightarrow> height n = 1 + height ln) \<and>
           (\<forall>b rn. l = None \<and> r = Some b \<and> h b = Some rn \<longrightarrow> height n = 1 + height rn) \<and>
           (\<forall>a b ln rn. l = Some a \<and> r = Some b \<and> h a = Some ln \<and> h b = Some rn \<longrightarrow>
              height n = 1 + max (height ln) (height rn))"
proof -
  let ?n0 = "\<lparr>value = v, parent = par, left = l, right = r, height = ht\<rparr>"
  have ne: "par \<noteq> Some this" using assms by (auto simp: live_or_null_def)
  have fresh: "Node_children_height (h(this \<mapsto> ?n0)) ?n0 = Node_children_height h ?n0"
    using assms by (intro Node_children_height_fresh[where l = l and r = r]) simp_all
  obtain k where k: "Node_children_height h ?n0 = Inr k"
    using Node_children_height_total[of h ?n0] assms by auto
  have stored: "\<exists>h'. Node_linking_ctor this v par l r ht h = Inr h' \<and>
      h' this = Some (?n0\<lparr>height := k\<rparr>)"
    using assms(2) ne fresh k
    by (cases par)
      (auto simp: Node_linking_ctor_def Node_link_parent_def live_or_null_def)
  have "l = None \<and> r = None \<longrightarrow> k = 0"
    using k by (auto simp: Node_children_height_def)
  moreover have "\<forall>a ln. l = Some a \<and> r = None \<and> h a = Some ln \<longrightarrow> k = 1 + height ln"
    using k by (auto simp: Node_children_height_def)
  moreover have "\<forall>b rn. l = None \<and> r = Some b \<and> h b = Some rn \<longrightarrow> k = 1 + height rn"
    using k by (auto simp: Node_children_height_def)
  moreover have "\<forall>a b ln rn. l = Some a \<and> r = Some b \<and> h a = Some ln \<and> h b = Some rn \<longrightarrow>
      k = 1 + max (height ln) (height rn)"
    using k by (auto simp: Node_children_height_def)
  ultimately show ?thesis using stored by auto
qed

theorem linking_ctor_height_witness:
  "\<exists>h' n. Node_linking_ctor 1 (3::int) None (Some 0) None 7 one_node_heap = Inr h' \<and>
      h' 1 = Some n \<and> height n = 1"
  using linking_ctor_height[of one_node_heap 1 None "Some 0" None 3 7]
  by (simp add: one_node_heap_def leaf5_def live_or_null_def)

section \<open>Destroying a node\<close>

text \<open>
  C3. Let \<open>a\<close> be a live node whose parent pointer is \<open>p\<close>, a live node other than \<open>a\<close>.
  When the parent's \<open>left\<close> points at \<open>a\<close>, \<open>destroy_node\<close> returns \<open>p\<close> and leaves the
  store in which \<open>a\<close> is gone, the parent is what it was with \<open>left\<close> null, and every
  other node is as before. When the parent's \<open>right\<close> points at \<open>a\<close> (and \<open>left\<close> does
  not: the node is one child, not both) the same holds with \<open>right\<close> null. For the null
  pointer it returns null and changes nothing. The tree object is returned as it was.
\<close>

theorem destroy_node_severs_matching_link:
  assumes "h a = Some n" and "parent n = Some p" and "h p = Some pn" and "p \<noteq> a"
  shows "(left pn = Some a \<longrightarrow>
            (\<exists>h'. destroy_node (Some a) (t, h) = Inr (Some p, t, h') \<and>
               h' a = None \<and> h' p = Some (pn\<lparr>left := None\<rparr>) \<and>
               (\<forall>b. b \<noteq> a \<and> b \<noteq> p \<longrightarrow> h' b = h b))) \<and>
         (left pn \<noteq> Some a \<and> right pn = Some a \<longrightarrow>
            (\<exists>h'. destroy_node (Some a) (t, h) = Inr (Some p, t, h') \<and>
               h' a = None \<and> h' p = Some (pn\<lparr>right := None\<rparr>) \<and>
               (\<forall>b. b \<noteq> a \<and> b \<noteq> p \<longrightarrow> h' b = h b))) \<and>
         destroy_node None (t, h) = Inr (None, t, h)"
  using assms by (simp add: destroy_node_def)

theorem destroy_node_severs_matching_link_witness:
  "\<exists>h'. destroy_node (Some 1)
       (one_node_tree, [0 \<mapsto> leaf5\<lparr>left := Some 1\<rparr>, 1 \<mapsto> leaf5\<lparr>value := 3, parent := Some 0\<rparr>])
         = Inr (Some 0, one_node_tree, h') \<and>
       h' 1 = None \<and> h' 0 = Some leaf5"
  using destroy_node_severs_matching_link[of
      "[0 \<mapsto> leaf5\<lparr>left := Some 1\<rparr>, 1 \<mapsto> leaf5\<lparr>value := 3, parent := Some 0\<rparr>]"
      1 "leaf5\<lparr>value := 3, parent := Some 0\<rparr>" 0 "leaf5\<lparr>left := Some 1\<rparr>" one_node_tree]
  by (auto simp: leaf5_def)

text \<open>
  A parent with both child pointers at the same node is no tree; on such a store the
  source tests \<open>left\<close> first and clears that link only.
\<close>

lemma destroy_node_both_links:
  assumes "h a = Some n" and "parent n = Some p" and "h p = Some pn"
    and "left pn = Some a" and "right pn = Some a"
  shows "destroy_node (Some a) (t, h) = Inr (Some p, t, (h(p \<mapsto> pn\<lparr>left := None\<rparr>))(a := None))"
  using assms by (simp add: destroy_node_def)

text \<open>
  C4, as the claim states it, fails: \<open>destroy_node\<close> never assigns the tree's \<open>root\<close>.
  On the tree whose only node is its root, the call frees the node and returns null,
  and the tree it leaves still has \<open>root\<close> pointing at the freed address.
\<close>

theorem destroy_root_leaves_root_set:
  "destroy_node (root one_node_tree) (one_node_tree, one_node_heap)
     = Inr (None, one_node_tree, Map.empty) \<and>
   root one_node_tree = Some 0 \<and> root one_node_tree \<noteq> None"
  by (simp add: destroy_node_def one_node_tree_def one_node_heap_def leaf5_def)

text \<open>
  C4, amended. Destroying a live node with a null parent pointer frees the node and
  returns null; the tree object, its \<open>root\<close> field included, is unchanged, so clearing
  \<open>root\<close> is left to the caller.
\<close>

theorem destroy_root_returns_null:
  assumes "h a = Some n" and "parent n = None"
  shows "destroy_node (Some a) (t, h) = Inr (None, t, h(a := None))"
  using assms by (simp add: destroy_node_def)

theorem destroy_root_returns_null_witness:
  "destroy_node (Some 0) (one_node_tree, one_node_heap)
     = Inr (None, one_node_tree, one_node_heap(0 := None))"
  using destroy_root_returns_null[of one_node_heap 0 leaf5 one_node_tree]
  by (simp add: one_node_heap_def leaf5_def)

text \<open>
  C10. Let \<open>a\<close> be a live node whose parent pointer is \<open>p\<close>, a live node neither of
  whose child pointers points at \<open>a\<close>. Then \<open>destroy_node\<close> still frees \<open>a\<close> and returns
  \<open>p\<close>; the store it leaves differs from the old one at \<open>a\<close> only, so the parent keeps
  both child links.
\<close>

theorem destroy_node_unlinked:
  assumes "h a = Some n" and "parent n = Some p" and "h p = Some pn"
    and "left pn \<noteq> Some a" and "right pn \<noteq> Some a"
  shows "destroy_node (Some a) (t, h) = Inr (Some p, t, h(a := None)) \<and>
         (p \<noteq> a \<longrightarrow> (h(a := None)) p = Some pn)"
  using assms by (simp add: destroy_node_def)

theorem destroy_node_unlinked_witness:
  "destroy_node (Some 1) (one_node_tree, [0 \<mapsto> leaf5, 1 \<mapsto> leaf5\<lparr>value := 3, parent := Some 0\<rparr>])
     = Inr (Some 0, one_node_tree, [0 \<mapsto> leaf5])"
  using destroy_node_unlinked[of "[0 \<mapsto> leaf5, 1 \<mapsto> leaf5\<lparr>value := 3, parent := Some 0\<rparr>]"
      1 "leaf5\<lparr>value := 3, parent := Some 0\<rparr>" 0 leaf5 one_node_tree]
  by (simp add: leaf5_def fun_upd_twist)

section \<open>The size counter\<close>

lemma reachable_one_node: "reachable one_node_heap (Some 0) = {0}"
proof
  show "reachable one_node_heap (Some 0) \<subseteq> {0}"
  proof
    fix x assume "x \<in> reachable one_node_heap (Some 0)"
    then show "x \<in> {0}"
      by induction (auto simp: one_node_heap_def split: if_splits)
  qed
  show "{0} \<subseteq> reachable one_node_heap (Some 0)"
    by (auto intro: reachable.start simp: one_node_heap_def)
qed

lemma reachable_two_node: "reachable two_node_heap (Some 0) = {0, 1}"
proof
  show "reachable two_node_heap (Some 0) \<subseteq> {0, 1}"
  proof
    fix x assume "x \<in> reachable two_node_heap (Some 0)"
    then show "x \<in> {0, 1}"
      by induction (auto simp: two_node_heap_def split: if_splits)
  qed
  have 0: "0 \<in> reachable two_node_heap (Some 0)"
    by (rule reachable.start[where n = "leaf5\<lparr>left := Some 1\<rparr>"])
      (simp_all add: two_node_heap_def)
  have "1 \<in> reachable two_node_heap (Some 0)"
    by (rule reachable.go_left[OF 0, where n = "leaf5\<lparr>left := Some 1\<rparr>"
          and m = "leaf5\<lparr>value := 3, parent := Some 0\<rparr>"])
      (simp_all add: two_node_heap_def)
  with 0 show "{0, 1} \<subseteq> reachable two_node_heap (Some 0)" by simp
qed

text \<open>
  C5, as the claim states it, fails: no node primitive assigns \<open>sz\<close>. Start from the
  tree of one node, where \<open>size()\<close> is 1 and one node is reachable from \<open>root\<close>.
  Constructing a node of value 3 under the root links it as the root's left child:
  two nodes are now reachable from \<open>root\<close>, and \<open>size()\<close> is still 1.
\<close>

theorem size_not_kept_by_construct:
  "unat (binary_tree_size one_node_tree) = card (reachable one_node_heap (root one_node_tree)) \<and>
   construct_node_linking 1 3 (Some 0) None None 0 (one_node_tree, one_node_heap)
     = Inr (Some 1, one_node_tree, two_node_heap) \<and>
   unat (binary_tree_size one_node_tree) = 1 \<and>
   card (reachable two_node_heap (root one_node_tree)) = 2"
proof -
  have "construct_node_linking 1 3 (Some 0) None None 0 (one_node_tree, one_node_heap)
     = Inr (Some 1, one_node_tree, two_node_heap)"
    by (simp add: construct_node_linking_def Node_linking_ctor_def Node_children_height_def
        Node_link_parent_def one_node_heap_def two_node_heap_def leaf5_def fun_upd_twist)
  then show ?thesis
    by (simp add: reachable_one_node reachable_two_node binary_tree_size_def one_node_tree_def)
qed

text \<open>
  C5, amended. Node construction, in both forms, and \<open>destroy_node\<close> return the tree
  object with \<open>size()\<close> as it was before the call: the counter follows the number of
  reachable nodes only through what the caller does to it.
\<close>

theorem node_primitives_keep_size:
  "(construct_node new1 v1 (t1, h1) = Inr (q1, t1', h1') \<longrightarrow>
      binary_tree_size t1' = binary_tree_size t1) \<and>
   (construct_node_linking new2 v2 par l r ht (t2, h2) = Inr (q2, t2', h2') \<longrightarrow>
      binary_tree_size t2' = binary_tree_size t2) \<and>
   (destroy_node nd (t3, h3) = Inr (q3, t3', h3') \<longrightarrow>
      binary_tree_size t3' = binary_tree_size t3)"
  by (auto simp: construct_node_def construct_node_linking_def destroy_node_def Let_def
      split: sum.splits option.splits)

theorem node_primitives_keep_size_witness:
  "construct_node 1 (3::int) (one_node_tree, one_node_heap)
     = Inr (Some 1, one_node_tree, one_node_heap(1 \<mapsto> Node_value_ctor 3)) \<and>
   construct_node_linking 1 3 (Some 0) None None 0 (one_node_tree, one_node_heap)
     = Inr (Some 1, one_node_tree, two_node_heap) \<and>
   destroy_node (Some 1) (one_node_tree, two_node_heap)
     = Inr (Some 0, one_node_tree, one_node_heap) \<and>
   binary_tree_size one_node_tree = binary_tree_size one_node_tree"
  using node_primitives_keep_size[of 1 "3::int" one_node_tree one_node_heap "Some 1"
      one_node_tree "one_node_heap(1 \<mapsto> Node_value_ctor 3)"
      1 3 "Some 0" None None 0 one_node_tree one_node_heap "Some 1" one_node_tree two_node_heap
      "Some 1" one_node_tree two_node_heap "Some 0" one_node_tree one_node_heap]
  by (simp add: construct_node_def construct_node_linking_def destroy_node_def
      Node_linking_ctor_def Node_children_height_def Node_link_parent_def
      one_node_heap_def two_node_heap_def leaf5_def fun_upd_twist)

section \<open>Dereferencing\<close>

text \<open>
  C6. On the null position, \<^verbatim>\<open>operator*\<close> and \<^verbatim>\<open>operator->\<close> of both iterator classes
  (and so of the reverse iterators) and \<^verbatim>\<open>operator*\<close>, \<^verbatim>\<open>operator->\<close> and \<^verbatim>\<open>value()\<close>
  of a node handle raise the runtime error, whatever the store. On a position that is
  a live node \<open>a\<close> holding \<open>n\<close>, the dereferences return the value of \<open>n\<close> and the
  arrows return the address \<open>a\<close> where that value is stored, with no error.
\<close>

theorem dereference_null_raises:
  "const_iterator_deref h \<lparr>const_iterator.node = None\<rparr>
           = Inl (Runtime_error ''segmentation fault'') \<and>
         const_iterator_arrow \<lparr>const_iterator.node = None\<rparr>
           = Inl (Runtime_error ''segmentation fault'') \<and>
         iterator_deref h \<lparr>iterator.node = None\<rparr> = Inl (Runtime_error ''segmentation fault'') \<and>
         iterator_arrow \<lparr>iterator.node = None\<rparr> = Inl (Runtime_error ''segmentation fault'') \<and>
         node_type_deref h \<lparr>node = None, allocator = al\<rparr>
           = Inl (Runtime_error ''segmentation fault'') \<and>
         node_type_arrow \<lparr>node = None, allocator = al\<rparr>
           = Inl (Runtime_error ''segmentation fault'') \<and>
         node_type_value h \<lparr>node = None, allocator = al\<rparr>
           = Inl (Runtime_error ''segmentation fault'') \<and>
   (h a = Some n \<longrightarrow>
         const_iterator_deref h \<lparr>const_iterator.node = Some a\<rparr> = Inr (value n) \<and>
         const_iterator_arrow \<lparr>const_iterator.node = Some a\<rparr> = Inr a \<and>
         iterator_deref h \<lparr>iterator.node = Some a\<rparr> = Inr (value n) \<and>
         iterator_arrow \<lparr>iterator.node = Some a\<rparr> = Inr a \<and>
         node_type_deref h \<lparr>node = Some a, allocator = al\<rparr> = Inr (value n) \<and>
         node_type_arrow \<lparr>node = Some a, allocator = al\<rparr> = Inr a \<and>
         node_type_value h \<lparr>node = Some a, allocator = al\<rparr> = Inr (value n))"
  by (simp add: const_iterator_deref_def const_iterator_arrow_def iterator_deref_def
      iterator_arrow_def node_type_deref_def node_type_arrow_def node_type_value_def)

theorem dereference_null_raises_witness:
  "const_iterator_deref one_node_heap \<lparr>const_iterator.node = None\<rparr>
     = Inl (Runtime_error ''segmentation fault'') \<and>
   node_type_value one_node_heap \<lparr>node = None, allocator = std_allocator\<rparr>
     = Inl (Runtime_error ''segmentation fault'') \<and>
   iterator_deref one_node_heap \<lparr>iterator.node = Some 0\<rparr> = Inr 5 \<and>
   node_type_value one_node_heap \<lparr>node = Some 0, allocator = std_allocator\<rparr> = Inr 5"
  using dereference_null_raises[where h = one_node_heap and a = 0 and n = leaf5
      and al = std_allocator]
  by (simp add: one_node_heap_def leaf5_def)

section \<open>Moving a node handle\<close>

text \<open>
  C9, as the claim states it, fails for move assignment, which destroys what the
  destination holds before it takes the source's pointer. Assigned to itself, a handle
  on the live node 0 ends empty, with the node destroyed: the destination does not hold
  the node the source held. Assigned between two distinct handles on the same node 0,
  the destination ends with the pointer the source held and the source ends empty, but
  the node has been destroyed and reading the destination's value is undefined.
\<close>

theorem move_assign_destroys_held_node:
  "node_type.node (two_handles 1) = Some 0 \<and> one_node_heap 0 = Some leaf5 \<and>
   node_type_move_assign std_allocator 1 1 (two_handles, one_node_heap)
     = Inr (no_handles, Map.empty) \<and>
   node_type.node (no_handles 1) = None \<and>
   node_type.node (shared_handles 1) = Some 0 \<and> node_type.node (shared_handles 2) = Some 0 \<and>
   node_type_move_assign std_allocator 1 2 (shared_handles, one_node_heap)
     = Inr (two_handles, Map.empty) \<and>
   node_type.node (two_handles 2) = None \<and>
   node_type_value (Map.empty :: int heap) (two_handles 1) = Inl Undefined_behaviour"
proof -
  have "node_type_move_assign std_allocator 1 1 (two_handles, one_node_heap)
     = Inr (no_handles, Map.empty)"
    by (simp add: node_type_move_assign_def node_type_destroy_def two_handles_def
        no_handles_def one_node_heap_def Let_def) (rule ext, simp)
  moreover have "node_type_move_assign std_allocator 1 2 (shared_handles, one_node_heap)
     = Inr (two_handles, Map.empty)"
    by (simp add: node_type_move_assign_def node_type_destroy_def shared_handles_def
        two_handles_def no_handles_def one_node_heap_def Let_def) (rule ext, simp)
  ultimately show ?thesis
    by (simp add: two_handles_def shared_handles_def no_handles_def one_node_heap_def
        node_type_value_def)
qed

text \<open>
  C9, amended. Move construction from any handle gives a new handle that holds the
  node the source held, and leaves the source empty. Move assignment between two distinct
  handle objects, the destination holding nothing or a live node other than the
  source's, returns and leaves the destination holding the node the source held, the
  source empty, that node in the store as it was, and the node the destination held
  before destroyed.
\<close>

theorem node_type_move_transfers:
  assumes "this \<noteq> other"
    and "node_type.node (hs this) = None \<or>
         (\<exists>b. node_type.node (hs this) = Some b \<and> h b \<noteq> None \<and>
              node_type.node (hs other) \<noteq> Some b)"
  shows "node_type.node (fst (node_type_move_ctor dflt src)) = node_type.node src \<and>
         node_type_empty (snd (node_type_move_ctor dflt src)) \<and>
         (\<exists>hs' h'. node_type_move_assign dflt this other (hs, h) = Inr (hs', h') \<and>
            node_type.node (hs' this) = node_type.node (hs other) \<and>
            node_type_empty (hs' other) \<and>
            (\<forall>a. node_type.node (hs other) = Some a \<longrightarrow> h' a = h a) \<and>
            (\<forall>b. node_type.node (hs this) = Some b \<longrightarrow> h' b = None))"
proof -
  have ctor: "node_type.node (fst (node_type_move_ctor dflt src)) = node_type.node src \<and>
      node_type_empty (snd (node_type_move_ctor dflt src))"
    by (simp add: node_type_move_ctor_def node_type_empty_def Let_def)
  have "\<exists>hs' h'. node_type_move_assign dflt this other (hs, h) = Inr (hs', h') \<and>
      node_type.node (hs' this) = node_type.node (hs other) \<and>
      node_type_empty (hs' other) \<and>
      (\<forall>a. node_type.node (hs other) = Some a \<longrightarrow> h' a = h a) \<and>
      (\<forall>b. node_type.node (hs this) = Some b \<longrightarrow> h' b = None)"
    using assms
    by (auto simp: node_type_move_assign_def node_type_destroy_def node_type_empty_def Let_def)
  with ctor show ?thesis by simp
qed

theorem node_type_move_transfers_witness:
  "node_type.node (fst (node_type_move_ctor std_allocator (two_handles 1))) = Some 0 \<and>
   node_type_empty (snd (node_type_move_ctor std_allocator (two_handles 1))) \<and>
   (\<exists>hs' h'. node_type_move_assign std_allocator 2 1
        (two_handles(2 := \<lparr>node = Some 1, allocator = std_allocator\<rparr>), twin_heap)
          = Inr (hs', h') \<and>
      node_type.node (hs' 2) = Some 0 \<and> node_type_empty (hs' 1) \<and> h' 0 = Some leaf5 \<and>
      h' 1 = None)"
  using node_type_move_transfers[of 2 1
      "two_handles(2 := \<lparr>node = Some 1, allocator = std_allocator\<rparr>)" twin_heap
      std_allocator "two_handles 1"]
  by (simp add: two_handles_def no_handles_def twin_heap_def)

section \<open>Successor and predecessor\<close>

lemma next_in_append_notin:
  "x \<notin> set xs \<Longrightarrow> next_in (xs @ ys) d x = next_in ys d x"
  by (induction xs) auto

lemma next_in_append_in:
  "x \<in> set xs \<Longrightarrow> ys \<noteq> [] \<Longrightarrow> next_in (xs @ ys) d x = next_in xs (Some (hd ys)) x"
proof (induction xs)
  case Nil
  then show ?case by simp
next
  case (Cons a xs)
  show ?case
  proof (cases xs)
    case Nil
    with Cons.prems show ?thesis by (cases ys) auto
  next
    case (Cons b bs)
    with Cons.IH Cons.prems show ?thesis by auto
  qed
qed

lemma next_in_SomeD:
  "next_in xs None x = Some y \<Longrightarrow> \<exists>us vs. xs = us @ x # y # vs"
proof (induction xs)
  case Nil
  then show ?case by simp
next
  case (Cons a xs)
  show ?case
  proof (cases "x = a")
    case True
    with Cons.prems obtain vs where "xs = y # vs" by (cases xs) auto
    with True have "a # xs = [] @ x # y # vs" by simp
    then show ?thesis by blast
  next
    case False
    with Cons obtain us vs where "xs = us @ x # y # vs" by auto
    then have "a # xs = (a # us) @ x # y # vs" by simp
    then show ?thesis by blast
  qed
qed

lemma next_in_rev_round_trip:
  assumes "distinct xs" and "next_in xs None x = Some y"
  shows "next_in (rev xs) None y = Some x"
proof -
  from assms(2) obtain us vs where xs: "xs = us @ x # y # vs" by (auto dest: next_in_SomeD)
  then have "rev xs = rev vs @ y # x # rev us" by simp
  moreover have "y \<notin> set (rev vs)" using assms(1) xs by auto
  ultimately show ?thesis by (simp add: next_in_append_notin)
qed

lemma next_in_None_iff:
  assumes "distinct xs" and "x \<in> set xs"
  shows "next_in xs None x = None \<longleftrightarrow> x = last xs"
  using assms
proof (induction xs)
  case Nil
  then show ?case by simp
next
  case (Cons a xs)
  then show ?case by (cases xs) auto
qed

lemma rep_root_in: "rep h par t (Some a) \<Longrightarrow> a \<in> set (inorder t)"
  by (cases t) auto

lemma rep_Some: "rep h par t (Some a) \<Longrightarrow> \<exists>l r. t = Fork l a r"
  by (cases t) auto

lemma rep_None: "rep h par t None \<Longrightarrow> t = Tip"
  by (cases t) auto

lemma rep_live: "rep h par t (Some c) \<Longrightarrow> \<exists>cn. h c = Some cn \<and> parent cn = par"
  by (cases t) (auto split: option.splits)

lemma leftmost_rep:
  "rep h par t (Some a) \<Longrightarrow> leftmost h a = Some (hd (inorder t))"
proof (induction t arbitrary: par a)
  case Tip
  then show ?case by simp
next
  case (Fork l b r)
  then obtain n where n: "a = b" "h b = Some n" "rep h (Some b) l (left n)"
    by (auto split: option.splits)
  show ?case
  proof (cases "left n")
    case None
    with n have "l = Tip" by (auto dest: rep_None)
    with n None show ?thesis by (subst leftmost.simps) simp
  next
    case (Some c)
    with n Fork.IH(1) have "leftmost h c = Some (hd (inorder l))" by auto
    moreover from n Some have "inorder l \<noteq> []" by (auto dest!: rep_root_in)
    ultimately show ?thesis using n Some by (subst leftmost.simps) simp
  qed
qed

lemma successor_rep:
  "rep h par t (Some a) \<Longrightarrow> distinct (inorder t) \<Longrightarrow> ascend_until_left_child h a = Some nxt \<Longrightarrow>
   x \<in> set (inorder t) \<Longrightarrow> successor h x = Some (next_in (inorder t) nxt x)"
proof (induction t arbitrary: par a nxt)
  case Tip
  then show ?case by simp
next
  case (Fork l b r)
  from Fork.prems(1) obtain n where n: "a = b" "h b = Some n" "parent n = par"
    "rep h (Some b) l (left n)" "rep h (Some b) r (right n)"
    by (auto split: option.splits)
  from Fork.prems(2) have dist: "distinct (inorder l)" "distinct (inorder r)"
    "b \<notin> set (inorder l)" "b \<notin> set (inorder r)" "set (inorder l) \<inter> set (inorder r) = {}"
    by auto
  consider (L) "x \<in> set (inorder l)" | (M) "x = b" | (R) "x \<in> set (inorder r)"
    using Fork.prems(4) by auto
  then show ?case
  proof cases
    case L
    then obtain c where c: "left n = Some c"
      using n(4) by (cases "left n") (auto dest: rep_None)
    then obtain cn where cn: "h c = Some cn" "parent cn = Some b"
      using n(4) rep_live[of h "Some b" l c] by auto
    have asc: "ascend_until_left_child h c = Some (Some b)"
      using cn n(2) c by (subst ascend_until_left_child.simps[of h c]) simp
    have repl: "rep h (Some b) l (Some c)" using n(4) c by simp
    have "successor h x = Some (next_in (inorder l) (Some b) x)"
      by (rule Fork.IH(1)[OF repl dist(1) asc L])
    then show ?thesis using L by (simp add: next_in_append_in)
  next
    case M
    show ?thesis
    proof (cases "right n")
      case None
      with n have "r = Tip" by (auto dest: rep_None)
      then show ?thesis using M n None dist Fork.prems(3)
        by (simp add: successor_def next_in_append_notin)
    next
      case (Some c)
      then have "leftmost h c = Some (hd (inorder r))"
        using n(5) leftmost_rep[of h "Some b" r c] by simp
      moreover have "inorder r \<noteq> []" using n(5) Some by (auto dest!: rep_root_in)
      ultimately show ?thesis using M n Some dist
        by (auto simp: successor_def next_in_append_notin split: list.splits)
    qed
  next
    case R
    then obtain c where c: "right n = Some c"
      using n(5) by (cases "right n") (auto dest: rep_None)
    then obtain cn where cn: "h c = Some cn" "parent cn = Some b"
      using n(5) rep_live[of h "Some b" r c] by auto
    have repr: "rep h (Some b) r (Some c)" using n(5) c by simp
    have "c \<in> set (inorder r)" using repr by (rule rep_root_in)
    then have "c \<notin> set (inorder l)" using dist(5) by auto
    then have nl: "left n \<noteq> Some c" using n(4) rep_root_in[of h "Some b" l c] by auto
    have "ascend_until_left_child h c = ascend_until_left_child h b"
      using cn n(2) nl by (subst ascend_until_left_child.simps[of h c]) simp
    then have asc: "ascend_until_left_child h c = Some nxt" using Fork.prems(3) n(1) by simp
    have "successor h x = Some (next_in (inorder r) nxt x)"
      by (rule Fork.IH(2)[OF repr dist(2) asc R])
    moreover have "x \<notin> set (inorder l)" "x \<noteq> b" using R dist by auto
    ultimately show ?thesis by (simp add: next_in_append_notin)
  qed
qed


lemma case_rev_last:
  "xs \<noteq> [] \<Longrightarrow> (case rev xs of [] \<Rightarrow> d | z # zs \<Rightarrow> Some z) = Some (last xs)"
  by (induction xs rule: rev_induct) simp_all

lemma rightmost_rep:
  "rep h par t (Some a) \<Longrightarrow> rightmost h a = Some (last (inorder t))"
proof (induction t arbitrary: par a)
  case Tip
  then show ?case by simp
next
  case (Fork l b r)
  then obtain n where n: "a = b" "h b = Some n" "rep h (Some b) r (right n)"
    by (auto split: option.splits)
  show ?case
  proof (cases "right n")
    case None
    with n have "r = Tip" by (auto dest: rep_None)
    with n None show ?thesis by (subst rightmost.simps) simp
  next
    case (Some c)
    with n Fork.IH(2) have "rightmost h c = Some (last (inorder r))" by auto
    moreover from n Some have "inorder r \<noteq> []" by (auto dest!: rep_root_in)
    ultimately show ?thesis using n Some by (subst rightmost.simps) simp
  qed
qed

lemma predecessor_rep:
  "rep h par t (Some a) \<Longrightarrow> distinct (inorder t) \<Longrightarrow> ascend_until_right_child h a = Some prv \<Longrightarrow>
   x \<in> set (inorder t) \<Longrightarrow> predecessor h x = Some (next_in (rev (inorder t)) prv x)"
proof (induction t arbitrary: par a prv)
  case Tip
  then show ?case by simp
next
  case (Fork l b r)
  from Fork.prems(1) obtain n where n: "a = b" "h b = Some n" "parent n = par"
    "rep h (Some b) l (left n)" "rep h (Some b) r (right n)"
    by (auto split: option.splits)
  from Fork.prems(2) have dist: "distinct (inorder l)" "distinct (inorder r)"
    "b \<notin> set (inorder l)" "b \<notin> set (inorder r)" "set (inorder l) \<inter> set (inorder r) = {}"
    by auto
  have rv: "rev (inorder (Fork l b r)) = rev (inorder r) @ b # rev (inorder l)" by simp
  consider (L) "x \<in> set (inorder l)" | (M) "x = b" | (R) "x \<in> set (inorder r)"
    using Fork.prems(4) by auto
  then show ?case
  proof cases
    case R
    then obtain c where c: "right n = Some c"
      using n(5) by (cases "right n") (auto dest: rep_None)
    then obtain cn where cn: "h c = Some cn" "parent cn = Some b"
      using n(5) rep_live[of h "Some b" r c] by auto
    have asc: "ascend_until_right_child h c = Some (Some b)"
      using cn n(2) c by (subst ascend_until_right_child.simps[of h c]) simp
    have repr: "rep h (Some b) r (Some c)" using n(5) c by simp
    have "predecessor h x = Some (next_in (rev (inorder r)) (Some b) x)"
      by (rule Fork.IH(2)[OF repr dist(2) asc R])
    then show ?thesis unfolding rv using R by (simp add: next_in_append_in)
  next
    case M
    show ?thesis
    proof (cases "left n")
      case None
      with n have "l = Tip" by (auto dest: rep_None)
      then show ?thesis unfolding rv using M n None dist Fork.prems(3)
        by (simp add: predecessor_def next_in_append_notin)
    next
      case (Some c)
      then have "rightmost h c = Some (last (inorder l))"
        using n(4) rightmost_rep[of h "Some b" l c] by simp
      moreover have "inorder l \<noteq> []" using n(4) Some by (auto dest!: rep_root_in)
      then have "(case rev (inorder l) of [] \<Rightarrow> prv | z # zs \<Rightarrow> Some z) = Some (last (inorder l))"
        by (rule case_rev_last)
      ultimately show ?thesis unfolding rv using M n(2) Some dist(4)
        by (simp add: predecessor_def next_in_append_notin)
    qed
  next
    case L
    then obtain c where c: "left n = Some c"
      using n(4) by (cases "left n") (auto dest: rep_None)
    then obtain cn where cn: "h c = Some cn" "parent cn = Some b"
      using n(4) rep_live[of h "Some b" l c] by auto
    have repl: "rep h (Some b) l (Some c)" using n(4) c by simp
    have "c \<in> set (inorder l)" using repl by (rule rep_root_in)
    then have "c \<notin> set (inorder r)" using dist(5) by auto
    then have nr: "right n \<noteq> Some c" using n(5) rep_root_in[of h "Some b" r c] by auto
    have "ascend_until_right_child h c = ascend_until_right_child h b"
      using cn n(2) nr by (subst ascend_until_right_child.simps[of h c]) simp
    then have asc: "ascend_until_right_child h c = Some prv" using Fork.prems(3) n(1) by simp
    have "predecessor h x = Some (next_in (rev (inorder l)) prv x)"
      by (rule Fork.IH(1)[OF repl dist(1) asc L])
    moreover have "x \<notin> set (inorder r)" "x \<noteq> b" using L dist by auto
    ultimately show ?thesis unfolding rv by (simp add: next_in_append_notin)
  qed
qed

lemma successor_well_formed:
  assumes "well_formed h rt t" and "x \<in> set (inorder t)"
  shows "successor h x = Some (next_in (inorder t) None x)"
proof -
  from assms obtain a where a: "rt = Some a" by (cases rt) (auto simp: well_formed_def dest: rep_None)
  with assms(1) obtain n where "h a = Some n" "parent n = None"
    using rep_live[of h None t a] by (auto simp: well_formed_def)
  then have "ascend_until_left_child h a = Some None"
    by (subst ascend_until_left_child.simps) simp
  then show ?thesis using assms a successor_rep[of h None t a None x]
    by (simp add: well_formed_def)
qed

lemma predecessor_well_formed:
  assumes "well_formed h rt t" and "x \<in> set (inorder t)"
  shows "predecessor h x = Some (next_in (rev (inorder t)) None x)"
proof -
  from assms obtain a where a: "rt = Some a" by (cases rt) (auto simp: well_formed_def dest: rep_None)
  with assms(1) obtain n where "h a = Some n" "parent n = None"
    using rep_live[of h None t a] by (auto simp: well_formed_def)
  then have "ascend_until_right_child h a = Some None"
    by (subst ascend_until_right_child.simps) simp
  then show ?thesis using assms a predecessor_rep[of h None t a None x]
    by (simp add: well_formed_def)
qed

lemma next_in_mem: "next_in xs None x = Some y \<Longrightarrow> y \<in> set xs"
  by (auto dest: next_in_SomeD)

text \<open>
  The scenario store is what five calls of the linking constructor build. No call
  touches the height of an ancestor, so every stored height is 0.
\<close>

lemma scenario_built:
  "(case Node_linking_ctor 0 (5::int) None None None 0 Map.empty of Inl e \<Rightarrow> Inl e | Inr h0 \<Rightarrow>
    case Node_linking_ctor 1 3 (Some 0) None None 0 h0 of Inl e \<Rightarrow> Inl e | Inr h1 \<Rightarrow>
    case Node_linking_ctor 2 8 (Some 0) None None 0 h1 of Inl e \<Rightarrow> Inl e | Inr h2 \<Rightarrow>
    case Node_linking_ctor 3 1 (Some 1) None None 0 h2 of Inl e \<Rightarrow> Inl e | Inr h3 \<Rightarrow>
         Node_linking_ctor 4 4 (Some 1) None None 0 h3) = Inr scenario_heap"
  by (simp add: Node_linking_ctor_def Node_children_height_def Node_link_parent_def
      scenario_heap_def) (rule ext, simp)

lemma scenario_well_formed: "well_formed scenario_heap (Some 0) scenario_shape"
  by (simp add: well_formed_def scenario_heap_def scenario_shape_def)

lemma scenario_successor_4: "successor scenario_heap 4 = Some (Some 0)"
  by (simp add: successor_def scenario_heap_def
      ascend_until_left_child.simps[of _ 4] ascend_until_left_child.simps[of _ "Suc 0"])

lemma scenario_predecessor_4: "predecessor scenario_heap 4 = Some (Some 1)"
  by (simp add: predecessor_def scenario_heap_def
      ascend_until_right_child.simps[of _ 4])

text \<open>
  C7. In a well-formed tree, from every node \<open>a\<close> (a non-end position) both
  \<open>successor\<close> and \<open>predecessor\<close> return a position. When \<open>successor\<close> returns a node,
  \<open>predecessor\<close> from that node returns \<open>a\<close>; when \<open>predecessor\<close> returns a node,
  \<open>successor\<close> from that node returns \<open>a\<close>. The exceptions are the two ends of the
  in-order sequence: \<open>successor\<close> returns the end sentinel exactly from the last node,
  \<open>predecessor\<close> exactly from the first.
\<close>

theorem iterator_round_trip:
  assumes "well_formed h rt t" and "a \<in> set (inorder t)"
  shows "(\<exists>q. successor h a = Some q) \<and> (\<exists>q. predecessor h a = Some q) \<and>
         (\<forall>b. successor h a = Some (Some b) \<longrightarrow> predecessor h b = Some (Some a)) \<and>
         (\<forall>b. predecessor h a = Some (Some b) \<longrightarrow> successor h b = Some (Some a)) \<and>
         (successor h a = Some None \<longleftrightarrow> a = last (inorder t)) \<and>
         (predecessor h a = Some None \<longleftrightarrow> a = hd (inorder t))"
proof -
  have d: "distinct (inorder t)" "distinct (rev (inorder t))"
    using assms(1) by (simp_all add: well_formed_def)
  have s: "successor h a = Some (next_in (inorder t) None a)"
    using assms by (rule successor_well_formed)
  have p: "predecessor h a = Some (next_in (rev (inorder t)) None a)"
    using assms by (rule predecessor_well_formed)
  have sp: "predecessor h b = Some (Some a)" if "successor h a = Some (Some b)" for b
  proof -
    from that s have nx: "next_in (inorder t) None a = Some b" by simp
    then have "b \<in> set (inorder t)" by (rule next_in_mem)
    then have "predecessor h b = Some (next_in (rev (inorder t)) None b)"
      using assms(1) predecessor_well_formed by blast
    then show ?thesis using next_in_rev_round_trip[OF d(1) nx] by simp
  qed
  have ps: "successor h b = Some (Some a)" if "predecessor h a = Some (Some b)" for b
  proof -
    from that p have nx: "next_in (rev (inorder t)) None a = Some b" by simp
    then have "b \<in> set (inorder t)" using next_in_mem by fastforce
    then have "successor h b = Some (next_in (inorder t) None b)"
      using assms(1) successor_well_formed by blast
    then show ?thesis using next_in_rev_round_trip[OF d(2) nx] by simp
  qed
  have "next_in (inorder t) None a = None \<longleftrightarrow> a = last (inorder t)"
    using d(1) assms(2) by (rule next_in_None_iff)
  moreover have "next_in (rev (inorder t)) None a = None \<longleftrightarrow> a = last (rev (inorder t))"
    using d(2) assms(2) by (intro next_in_None_iff) simp_all
  moreover have "last (rev (inorder t)) = hd (inorder t)"
    using assms(2) by (cases "inorder t") auto
  ultimately show ?thesis using s p sp ps by auto
qed

theorem iterator_round_trip_witness:
  "well_formed scenario_heap (Some 0) scenario_shape \<and>
   successor scenario_heap 4 = Some (Some 0) \<and> predecessor scenario_heap 0 = Some (Some 4) \<and>
   predecessor scenario_heap 4 = Some (Some 1) \<and> successor scenario_heap 1 = Some (Some 4)"
  using iterator_round_trip[OF scenario_well_formed, of 4]
    scenario_well_formed scenario_successor_4 scenario_predecessor_4
  by (simp add: scenario_shape_def)

section \<open>Equality of trees\<close>

lemma rep_unique: "rep h par u p \<Longrightarrow> rep h par v p \<Longrightarrow> u = v"
proof (induction u arbitrary: par v p)
  case Tip
  then show ?case by (auto dest: rep_None)
next
  case (Fork l a r)
  from Fork.prems(1) obtain n where n: "p = Some a" "h a = Some n"
    "rep h (Some a) l (left n)" "rep h (Some a) r (right n)"
    by (auto split: option.splits)
  from Fork.prems(2) n(1) obtain l' r' where v: "v = Fork l' a r'"
    by (auto dest: rep_Some)
  with Fork.prems(2) n have "rep h (Some a) l' (left n)" "rep h (Some a) r' (right n)"
    by auto
  with n Fork.IH v show ?case by blast
qed

text \<open>
  C8, as the claim states it, fails: \<^verbatim>\<open>operator==\<close> of the tree compares the two
  \<open>root\<close> pointers as addresses and reads no node. Two trees of one node each, the two
  nodes equal field by field under the node's own \<^verbatim>\<open>operator==\<close>, the sizes equal
  and the allocators equal, compare unequal because the nodes live at different addresses.
\<close>

theorem identical_trees_compare_unequal:
  "twin_heap 0 = Some leaf5 \<and> twin_heap 1 = Some leaf5 \<and> Node_eq leaf5 leaf5 \<and>
   root one_node_tree = Some 0 \<and> root (one_node_tree\<lparr>root := Some 1\<rparr>) = Some 1 \<and>
   sz (one_node_tree\<lparr>root := Some 1\<rparr>) = sz one_node_tree \<and>
   \<not> binary_tree_eq std_allocator_eq std_allocator_eq
       one_node_tree (one_node_tree\<lparr>root := Some 1\<rparr>)"
  by (simp add: twin_heap_def Node_eq_def binary_tree_eq_def one_node_tree_def)

text \<open>
  C8, amended. Equality of two trees compares the members and reads no node: the trees
  compare equal exactly when their \<open>root\<close> pointers are the same address, their
  allocators and their node allocators compare equal under the allocator types' own
  \<^verbatim>\<open>operator==\<close>, and their sizes are equal. So two trees of different shapes compare
  unequal, and so do two trees whose roots are different nodes, however alike their
  structure. Equality of two nodes compares the values, the heights, and the parent,
  left and right pointers as addresses.
\<close>

theorem tree_equality_compares_roots:
  "(binary_tree_eq al_eq nal_eq s t \<longleftrightarrow>
      root s = root t \<and> al_eq (binary_tree.allocator s) (binary_tree.allocator t) \<and>
      nal_eq (node_allocator s) (node_allocator t) \<and> sz s = sz t) \<and>
   (rep h None u (root s) \<and> rep h None v (root t) \<and> u \<noteq> v \<longrightarrow>
      \<not> binary_tree_eq al_eq nal_eq s t) \<and>
   (root s \<noteq> root t \<longrightarrow> \<not> binary_tree_eq al_eq nal_eq s t) \<and>
   (Node_eq m n \<longleftrightarrow>
      value m = value n \<and> height m = height n \<and>
      parent m = parent n \<and> left m = left n \<and> right m = right n) \<and>
   (Node_eq m n \<longleftrightarrow> m = n)"
proof -
  have "root s \<noteq> root t" if "rep h None u (root s)" "rep h None v (root t)" "u \<noteq> v"
    using that rep_unique by fastforce
  then show ?thesis
    by (auto simp: binary_tree_eq_def Node_eq_def)
qed

theorem tree_equality_compares_roots_witness:
  "rep two_shapes_heap None (Fork (Fork Tip 1 Tip) 0 Tip) (Some 0) \<and>
   rep two_shapes_heap None (Fork Tip 2 (Fork Tip 3 Tip)) (Some 2) \<and>
   \<not> binary_tree_eq std_allocator_eq std_allocator_eq
       (one_node_tree\<lparr>sz := 2\<rparr>) (one_node_tree\<lparr>root := Some 2, sz := 2\<rparr>) \<and>
   \<not> Node_eq leaf5 (leaf5\<lparr>parent := Some 0\<rparr>)"
  using tree_equality_compares_roots[of std_allocator_eq std_allocator_eq
      "one_node_tree\<lparr>sz := 2\<rparr>" "one_node_tree\<lparr>root := Some 2, sz := 2\<rparr>" two_shapes_heap
      "Fork (Fork Tip 1 Tip) 0 Tip" "Fork Tip 2 (Fork Tip 3 Tip)"
      leaf5 "leaf5\<lparr>parent := Some 0\<rparr>"]
  by (simp add: two_shapes_heap_def one_node_tree_def leaf5_def)

end
